theory Spec2Isabelle
  imports Complex_Main "HOL-Library.Sublist" "HOL-Library.Multiset"
begin

section \<open>The CARM builder: bandwidth clustering and peak performance\<close>

text \<open>
  A shallow embedding of \<^verbatim>\<open>builder.py\<close>: \<^verbatim>\<open>get_bandwidth\<close> and
  \<^verbatim>\<open>get_peak_performance\<close>, both with \<^verbatim>\<open>plot = False\<close> (the plotting branch only
  draws, after the result has been computed).

  Conventions of the model.
  \<^item> A benchmark dictionary \<^verbatim>\<open>dict[str, int]\<close> is the list of its items in insertion
    order: an association list of string keys and integer cycle counts.
  \<^item> Python integers are \<^typ>\<open>int\<close>.
  \<^item> Python floats are modelled by exact real numbers: rounding, overflow (to infinity, or
    as \<^verbatim>\<open>OverflowError\<close>) and NaN are outside the model. \<^verbatim>\<open>-math.inf\<close>, the one infinite value the source writes
    down, is the value \<open>None\<close> of a \<^typ>\<open>real option\<close>.
  \<^item> Every exception the source can raise is a value of \<open>error\<close>; a function that may
    raise returns \<open>error + 'a\<close>, with \<open>Inl\<close> for the exception.
\<close>

subsection \<open>Exceptions\<close>

datatype error = ValueError | ZeroDivisionError | IndexError | TypeError

definition ebind :: "error + 'a \<Rightarrow> ('a \<Rightarrow> error + 'b) \<Rightarrow> error + 'b" where
  "ebind m f = (case m of Inl e \<Rightarrow> Inl e | Inr x \<Rightarrow> f x)"

fun emap :: "('a \<Rightarrow> error + 'b) \<Rightarrow> 'a list \<Rightarrow> error + 'b list" where
  "emap f [] = Inr []"
| "emap f (x # xs) = ebind (f x) (\<lambda>y. ebind (emap f xs) (\<lambda>ys. Inr (y # ys)))"

subsection \<open>\<^verbatim>\<open>int(b)\<close> on a string key\<close>

text \<open>
  Python's \<^verbatim>\<open>int\<close> on a string, base 10, for ASCII text: surrounding whitespace is
  stripped, one sign is allowed, then decimal digits in which single underscores may
  separate digits. Anything else raises \<^verbatim>\<open>ValueError\<close>. (Non-ASCII digits and the
  interpreter's limit on the number of digits are outside the model.)
\<close>

definition is_space :: "char \<Rightarrow> bool" where
  "is_space c = (let n = (of_char c :: nat) in (9 \<le> n \<and> n \<le> 13) \<or> n = 32)"

definition digit_val :: "char \<Rightarrow> nat option" where
  "digit_val c = (let n = (of_char c :: nat) in if 48 \<le> n \<and> n \<le> 57 then Some (n - 48) else None)"

fun parse_digits :: "string \<Rightarrow> bool \<Rightarrow> nat \<Rightarrow> nat option" where
  "parse_digits [] prev_digit acc = (if prev_digit then Some acc else None)"
| "parse_digits (c # cs) prev_digit acc =
     (case digit_val c of
        Some d \<Rightarrow> parse_digits cs True (10 * acc + d)
      | None \<Rightarrow> if c = CHR ''_'' \<and> prev_digit then parse_digits cs False acc else None)"

definition strip :: "string \<Rightarrow> string" where
  "strip s = dropWhile is_space (rev (dropWhile is_space (rev s)))"

definition py_int :: "string \<Rightarrow> error + int" where
  "py_int s =
     (case strip s of
        [] \<Rightarrow> Inl ValueError
      | c # cs \<Rightarrow>
          (if c = CHR ''-'' then
             (case parse_digits cs False 0 of None \<Rightarrow> Inl ValueError | Some n \<Rightarrow> Inr (- int n))
           else if c = CHR ''+'' then
             (case parse_digits cs False 0 of None \<Rightarrow> Inl ValueError | Some n \<Rightarrow> Inr (int n))
           else
             (case parse_digits (c # cs) False 0 of None \<Rightarrow> Inl ValueError | Some n \<Rightarrow> Inr (int n))))"

subsection \<open>The rate curve\<close>

text \<open>
  \<^verbatim>\<open>bytes = [int(b) for b in memory_benchmark.keys()]\<close>,
  \<^verbatim>\<open>cycles = [c for c in memory_benchmark.values()]\<close> and
  \<^verbatim>\<open>bandwidth = [frequency_hz * (b / c) for b, c in zip(bytes, cycles)]\<close>.
  The true division \<^verbatim>\<open>b / c\<close> of two integers raises \<^verbatim>\<open>ZeroDivisionError\<close> when
  \<^verbatim>\<open>c\<close> is zero, and divides by a negative \<^verbatim>\<open>c\<close> like by any other number.
\<close>

definition int_keys :: "(string \<times> int) list \<Rightarrow> error + int list" where
  "int_keys benchmark = emap py_int (map fst benchmark)"

definition rate :: "int \<Rightarrow> int \<times> int \<Rightarrow> error + real" where
  "rate frequency_hz bc =
     (case bc of (b, c) \<Rightarrow>
        if c = 0 then Inl ZeroDivisionError
        else Inr (real_of_int frequency_hz * (real_of_int b / real_of_int c)))"

definition rates :: "(string \<times> int) list \<Rightarrow> int \<Rightarrow> error + (int \<times> real) list" where
  "rates benchmark frequency_hz =
     ebind (int_keys benchmark) (\<lambda>sizes.
     ebind (emap (rate frequency_hz) (zip sizes (map snd benchmark))) (\<lambda>curve.
     Inr (zip sizes curve)))"

subsection \<open>The clustering pass\<close>

type_synonym point = "int \<times> real"

definition CLUSTER_THRESHOLD :: real where
  "CLUSTER_THRESHOLD = 2 / 10"

definition average :: "point list \<Rightarrow> real" where
  "average cluster = sum_list (map snd cluster) / real (length cluster)"

text \<open>
  One iteration of \<^verbatim>\<open>for bandwidth_point in zip(bytes, bandwidth)\<close>. The list
  \<^verbatim>\<open>clusters\<close> is never empty in the source (it starts as \<^verbatim>\<open>[[]]\<close>), and
  \<^verbatim>\<open>clusters[-1]\<close> on an empty list would raise \<^verbatim>\<open>IndexError\<close>.
\<close>

definition cluster_step :: "point list list \<Rightarrow> point \<Rightarrow> error + point list list" where
  "cluster_step clusters bandwidth_point =
     (if clusters = [] then Inl IndexError
      else
        let current_cluster = last clusters in
        if length current_cluster = 0 then Inr (butlast clusters @ [current_cluster @ [bandwidth_point]])
        else
          let cluster_avg = average current_cluster in
          if \<bar>snd bandwidth_point - cluster_avg\<bar> < CLUSTER_THRESHOLD * cluster_avg
          then Inr (butlast clusters @ [current_cluster @ [bandwidth_point]])
          else if length current_cluster < 3 then Inr (butlast clusters @ [[bandwidth_point]])
          else Inr (clusters @ [[bandwidth_point]]))"

fun cluster_loop :: "point list list \<Rightarrow> point list \<Rightarrow> error + point list list" where
  "cluster_loop clusters [] = Inr clusters"
| "cluster_loop clusters (p # ps) = ebind (cluster_step clusters p) (\<lambda>clusters'. cluster_loop clusters' ps)"

subsection \<open>The outlier-trimming pass\<close>

text \<open>
  \<^verbatim>\<open>points_to_remove = max(1, min(int(len(cluster) * 0.5), len(cluster)-1))\<close>:
  \<^verbatim>\<open>int\<close> truncates the non-negative float, which is the integer half.
\<close>

definition points_to_remove :: "nat \<Rightarrow> int" where
  "points_to_remove n = max 1 (min (int n div 2) (int n - 1))"

text \<open>
  The search for the index of the largest deviation, from \<^verbatim>\<open>max_dev = -math.inf\<close>
  and \<^verbatim>\<open>max_idx = None\<close>; the comparison is strict, so the first largest wins.
\<close>

fun max_dev_loop :: "(real \<times> nat) list \<Rightarrow> real option \<Rightarrow> nat option \<Rightarrow> nat option" where
  "max_dev_loop [] max_dev max_idx = max_idx"
| "max_dev_loop ((dev, idx) # rest) max_dev max_idx =
     (if (case max_dev of None \<Rightarrow> True | Some m \<Rightarrow> dev > m)
      then max_dev_loop rest (Some dev) (Some idx)
      else max_dev_loop rest max_dev max_idx)"

text \<open>\<^verbatim>\<open>cluster.pop(max_idx)\<close>: \<^verbatim>\<open>None\<close> is not an index, and an index must be in range.\<close>

definition pop :: "'a list \<Rightarrow> nat option \<Rightarrow> error + 'a list" where
  "pop xs max_idx =
     (case max_idx of
        None \<Rightarrow> Inl TypeError
      | Some k \<Rightarrow> if k < length xs then Inr (take k xs @ drop (Suc k) xs) else Inl IndexError)"

text \<open>One iteration of \<^verbatim>\<open>for _ in range(points_to_remove)\<close>.\<close>

definition remove_outlier :: "point list \<Rightarrow> error + point list" where
  "remove_outlier cluster =
     (if length cluster = 0 then Inl ZeroDivisionError
      else
        let avg = average cluster;
            deviation = map (\<lambda>p. \<bar>snd p - avg\<bar>) cluster;
            max_idx = max_dev_loop (zip deviation [0..<length deviation]) None None
        in pop cluster max_idx)"

fun repeat_remove :: "nat \<Rightarrow> point list \<Rightarrow> error + point list" where
  "repeat_remove 0 cluster = Inr cluster"
| "repeat_remove (Suc k) cluster = ebind (remove_outlier cluster) (repeat_remove k)"

definition trim_cluster :: "point list \<Rightarrow> error + point list" where
  "trim_cluster cluster = repeat_remove (nat (points_to_remove (length cluster))) cluster"

subsection \<open>The reduction and the extractor\<close>

text \<open>\<^verbatim>\<open>sum(p[1] for p in c) / len(c)\<close>, which raises on an empty cluster.\<close>

definition mean_rate :: "point list \<Rightarrow> error + real" where
  "mean_rate c = (if length c = 0 then Inl ZeroDivisionError else Inr (average c))"

text \<open>
  Lines 23 to 57 of the source: everything \<^verbatim>\<open>get_bandwidth\<close> does once the points
  \<^verbatim>\<open>zip(bytes, bandwidth)\<close> exist. The clusters are trimmed in place, one after the
  other, before any mean is taken.
\<close>

definition level_bandwidth :: "point list \<Rightarrow> error + real list" where
  "level_bandwidth points =
     ebind (cluster_loop [[]] points) (\<lambda>clusters.
     ebind (emap trim_cluster clusters) (\<lambda>trimmed.
     emap mean_rate trimmed))"

definition get_bandwidth :: "(string \<times> int) list \<Rightarrow> int \<Rightarrow> error + real list" where
  "get_bandwidth memory_benchmark frequency_hz =
     ebind (rates memory_benchmark frequency_hz) level_bandwidth"

subsection \<open>The peak-performance extractor\<close>

text \<open>
  \<^verbatim>\<open>max(performance)\<close> raises \<^verbatim>\<open>ValueError\<close> on an empty list and otherwise keeps the
  first item that no later item exceeds.
\<close>

fun py_max :: "real list \<Rightarrow> error + real" where
  "py_max [] = Inl ValueError"
| "py_max (x # xs) = Inr (fold (\<lambda>item maxitem. if item > maxitem then item else maxitem) xs x)"

definition get_peak_performance :: "(string \<times> int) list \<Rightarrow> int \<Rightarrow> error + real" where
  "get_peak_performance arithmetic_benchmark frequency_hz =
     ebind (rates arithmetic_benchmark frequency_hz) (\<lambda>points.
     py_max (map snd points))"

subsection \<open>Vocabulary of the properties\<close>

text \<open>A rate \<open>r\<close> lies within the relative tolerance \<open>tol\<close> of the value \<open>v\<close>.\<close>

definition within_tol :: "real \<Rightarrow> real \<Rightarrow> real \<Rightarrow> bool" where
  "within_tol tol v r = (\<bar>r - v\<bar> < tol * v)"

text \<open>A plateau at rate \<open>r\<close>: a run of at least three points, all at that rate.\<close>

definition plateau :: "real \<Rightarrow> point list \<Rightarrow> bool" where
  "plateau r pl = (3 \<le> length pl \<and> list_all (\<lambda>p. snd p = r) pl)"

text \<open>
  Consecutive plateau rates differ by more than the threshold, relative to the earlier of
  the two (the one the running average of the scan is at when the later one arrives).
\<close>

fun separated :: "real list \<Rightarrow> bool" where
  "separated [] = True"
| "separated [r] = True"
| "separated (r # r' # rs) = (CLUSTER_THRESHOLD * r < \<bar>r' - r\<bar> \<and> separated (r' # rs))"

text \<open>A point with its byte size forgotten.\<close>

definition erase :: "point \<Rightarrow> point" where
  "erase p = (0, snd p)"

section \<open>Basic facts\<close>

subsection \<open>Exceptions as values\<close>

lemma ebind_Inl [simp]: "ebind (Inl e) f = Inl e"
  by (simp add: ebind_def)

lemma ebind_Inr [simp]: "ebind (Inr x) f = f x"
  by (simp add: ebind_def)

lemma ebind_eq_Inr: "ebind m f = Inr y \<longleftrightarrow> (\<exists>x. m = Inr x \<and> f x = Inr y)"
  by (cases m) simp_all


subsection \<open>Averages\<close>

lemma average_bounds:
  assumes "c \<noteq> []" and "\<And>p. p \<in> set c \<Longrightarrow> lo < snd p \<and> snd p < hi"
  shows "lo < average c \<and> average c < hi"
proof -
  have n: "0 < real (length c)" using assms(1) by simp
  have "sum_list (map snd c) < real (length c) * hi \<and> real (length c) * lo < sum_list (map snd c)"
    using assms
  proof (induction c rule: list_nonempty_induct)
    case (single x)
    then show ?case by simp
  next
    case (cons x xs)
    then have "sum_list (map snd xs) < real (length xs) * hi \<and> real (length xs) * lo < sum_list (map snd xs)"
      by simp
    moreover have "lo < snd x \<and> snd x < hi" using cons.prems by simp
    ultimately show ?case by (simp add: algebra_simps)
  qed
  then show ?thesis
    using n by (simp add: average_def field_simps)
qed

lemma average_const:
  assumes "c \<noteq> []" and "\<And>p. p \<in> set c \<Longrightarrow> snd p = r"
  shows "average c = r"
proof -
  have "sum_list (map snd c) = real (length c) * r"
    using assms(2) by (induction c) (simp_all add: algebra_simps)
  then show ?thesis using assms(1) by (simp add: average_def)
qed

subsection \<open>The scan\<close>

text \<open>
  The scan never raises; it keeps every cluster but the last at three points or more; and
  a run of points close enough to one positive value stays in one cluster.
\<close>

lemma cluster_step_snoc:
  "cluster_step (cs @ [cur]) p =
     Inr (if cur = [] then cs @ [[p]]
          else if \<bar>snd p - average cur\<bar> < CLUSTER_THRESHOLD * average cur then cs @ [cur @ [p]]
          else if length cur < 3 then cs @ [[p]]
          else cs @ [cur, [p]])"
  by (simp add: cluster_step_def Let_def)

lemma cluster_loop_append:
  "cluster_loop cs (xs @ ys) = ebind (cluster_loop cs xs) (\<lambda>cs'. cluster_loop cs' ys)"
proof (induction xs arbitrary: cs)
  case Nil
  show ?case by simp
next
  case (Cons x xs)
  show ?case
    by (cases "cluster_step cs x") (simp_all add: Cons.IH)
qed

lemma cluster_step_total:
  assumes "cs \<noteq> []"
  shows "\<exists>cs'. cluster_step cs p = Inr cs' \<and> cs' \<noteq> []"
proof -
  obtain bs cur where "cs = bs @ [cur]"
    using assms by (metis append_butlast_last_id)
  then show ?thesis by (simp add: cluster_step_snoc)
qed

lemma cluster_loop_total:
  assumes "cs \<noteq> []"
  shows "\<exists>cs'. cluster_loop cs ps = Inr cs' \<and> cs' \<noteq> []"
  using assms
proof (induction ps arbitrary: cs)
  case Nil
  then show ?case by simp
next
  case (Cons p ps)
  from cluster_step_total [OF Cons.prems] obtain cs1
    where "cluster_step cs p = Inr cs1" "cs1 \<noteq> []" by blast
  with Cons.IH [of cs1] show ?case by simp
qed

lemma cluster_loop_tight:
  assumes "cur \<noteq> []" and "0 < v"
    and "\<And>p. p \<in> set cur \<union> set ps \<Longrightarrow> \<bar>snd p - v\<bar> < v / 11"
  shows "cluster_loop (cs @ [cur]) ps = Inr (cs @ [cur @ ps])"
  using assms
proof (induction ps arbitrary: cur)
  case Nil
  show ?case by simp
next
  case (Cons p ps)
  have "10 * v / 11 < average cur \<and> average cur < 12 * v / 11"
  proof (rule average_bounds [OF Cons.prems(1)])
    fix q assume "q \<in> set cur"
    then have "\<bar>snd q - v\<bar> < v / 11" using Cons.prems(3) by simp
    then show "10 * v / 11 < snd q \<and> snd q < 12 * v / 11" by linarith
  qed
  moreover have "\<bar>snd p - v\<bar> < v / 11" using Cons.prems(3) by simp
  ultimately have close: "\<bar>snd p - average cur\<bar> < CLUSTER_THRESHOLD * average cur"
    using Cons.prems(2) unfolding CLUSTER_THRESHOLD_def by linarith
  have "cluster_loop (cs @ [cur @ [p]]) ps = Inr (cs @ [(cur @ [p]) @ ps])"
    by (rule Cons.IH) (use Cons.prems in auto)
  then show ?case
    using close Cons.prems(1) by (simp add: cluster_step_snoc)
qed

lemma cluster_step_closed:
  assumes "cluster_step cs p = Inr cs'" and "\<And>c. c \<in> set (butlast cs) \<Longrightarrow> 3 \<le> length c"
  shows "(\<forall>c \<in> set (butlast cs'). 3 \<le> length c) \<and> last cs' \<noteq> [] \<and> cs' \<noteq> []"
proof -
  have "cs \<noteq> []" using assms(1) by (auto simp: cluster_step_def)
  then obtain bs cur where cs: "cs = bs @ [cur]"
    by (metis append_butlast_last_id)
  show ?thesis
    using assms unfolding cs cluster_step_snoc
    by (auto split: if_splits simp: butlast_append)
qed

lemma cluster_loop_closed:
  assumes "cluster_loop cs ps = Inr cs'" and "\<And>c. c \<in> set (butlast cs) \<Longrightarrow> 3 \<le> length c"
  shows "\<forall>c \<in> set (butlast cs'). 3 \<le> length c"
  using assms
proof (induction ps arbitrary: cs)
  case Nil
  then show ?case by simp
next
  case (Cons p ps)
  from Cons.prems(1) obtain cs1 where s: "cluster_step cs p = Inr cs1" and l: "cluster_loop cs1 ps = Inr cs'"
    by (auto simp: ebind_eq_Inr)
  from cluster_step_closed [OF s] Cons.prems(2) have "\<And>c. c \<in> set (butlast cs1) \<Longrightarrow> 3 \<le> length c"
    by blast
  from Cons.IH [OF l this] show ?case .
qed

lemma cluster_loop_subseq:
  "\<exists>rest. cluster_loop (cs @ [cur]) qs = Inr (cs @ rest) \<and> rest \<noteq> [] \<and> subseq (concat rest) (cur @ qs)"
proof (induction qs arbitrary: cs cur)
  case Nil
  show ?case by (rule exI [of _ "[cur]"]) simp
next
  case (Cons q qs)
  have "cluster_step (cs @ [cur]) q = Inr (cs @ [cur @ [q]])
      \<or> cluster_step (cs @ [cur]) q = Inr (cs @ [[q]])
      \<or> cluster_step (cs @ [cur]) q = Inr ((cs @ [cur]) @ [[q]])"
    by (simp add: cluster_step_snoc)
  then consider (add) "cluster_step (cs @ [cur]) q = Inr (cs @ [cur @ [q]])"
    | (over) "cluster_step (cs @ [cur]) q = Inr (cs @ [[q]])"
    | (new) "cluster_step (cs @ [cur]) q = Inr ((cs @ [cur]) @ [[q]])"
    by blast
  then show ?case
  proof cases
    case add
    from Cons.IH [of cs "cur @ [q]"] add show ?thesis by simp
  next
    case over
    from Cons.IH [of cs "[q]"] obtain rest
      where r: "cluster_loop (cs @ [[q]]) qs = Inr (cs @ rest)" "rest \<noteq> []" "subseq (concat rest) ([q] @ qs)"
      by blast
    have "subseq ([q] @ qs) (cur @ q # qs)"
      by (metis append_Cons append_Nil subseq_order.order_refl list_emb_append2)
    with r(3) have "subseq (concat rest) (cur @ q # qs)"
      using subseq_order.order_trans by blast
    with r over show ?thesis by simp
  next
    case new
    from Cons.IH [of "cs @ [cur]" "[q]"] obtain rest
      where r: "cluster_loop ((cs @ [cur]) @ [[q]]) qs = Inr ((cs @ [cur]) @ rest)" "rest \<noteq> []"
        "subseq (concat rest) ([q] @ qs)"
      by blast
    have "subseq (concat (cur # rest)) (cur @ q # qs)"
      using r(3) by (simp add: subseq_append')
    with r new show ?thesis
      by (intro exI [of _ "cur # rest"]) simp
  qed
qed

subsection \<open>The trimming\<close>

text \<open>
  One removal takes exactly one point out of a non-empty cluster, so \<open>k\<close> removals succeed
  on a cluster of at least \<open>k\<close> points. In a cluster at one rate every deviation is zero
  and the first point is the one removed.
\<close>

lemma max_dev_loop_Some:
  "\<exists>j. max_dev_loop xs md (Some i) = Some j \<and> (j = i \<or> j \<in> snd ` set xs)"
proof (induction xs arbitrary: md i)
  case Nil
  show ?case by simp
next
  case (Cons x xs)
  obtain dev idx where x: "x = (dev, idx)" by (cases x)
  from Cons.IH [of "Some dev" idx] Cons.IH [of md i] show ?case
    unfolding x by (cases md) auto
qed

lemma max_dev_loop_start:
  assumes "xs \<noteq> []"
  shows "\<exists>j. max_dev_loop xs None None = Some j \<and> j \<in> snd ` set xs"
proof -
  obtain dev idx rest where xs: "xs = (dev, idx) # rest"
    using assms by (cases xs) auto
  from max_dev_loop_Some [of rest "Some dev" idx] show ?thesis
    unfolding xs by auto
qed

lemma max_dev_loop_keep:
  assumes "\<And>d i. (d, i) \<in> set xs \<Longrightarrow> d \<le> m"
  shows "max_dev_loop xs (Some m) mi = mi"
  using assms
proof (induction xs)
  case Nil
  show ?case by simp
next
  case (Cons x xs)
  obtain dev idx where x: "x = (dev, idx)" by (cases x)
  have "dev \<le> m" using Cons.prems [of dev idx] x by simp
  moreover have "max_dev_loop xs (Some m) mi = mi"
    by (rule Cons.IH) (use Cons.prems in auto)
  ultimately show ?case unfolding x by simp
qed

lemma subseq_pop:
  assumes "k < length xs"
  shows "subseq (take k xs @ drop (Suc k) xs) xs"
proof -
  have "drop k xs = xs ! k # drop (Suc k) xs"
    using assms by (simp add: Cons_nth_drop_Suc)
  then have "subseq (drop (Suc k) xs) (drop k xs)"
    by (metis subseq_Cons' subseq_order.order_refl)
  then have "subseq (take k xs @ drop (Suc k) xs) (take k xs @ drop k xs)"
    by (simp only: subseq_append')
  then show ?thesis by simp
qed

lemma remove_outlier_nonempty:
  assumes "c \<noteq> []"
  shows "\<exists>c'. remove_outlier c = Inr c' \<and> Suc (length c') = length c \<and> subseq c' c"
proof -
  define devs where "devs = map (\<lambda>p. \<bar>snd p - average c\<bar>) c"
  have len: "length devs = length c" by (simp add: devs_def)
  then have "zip devs [0..<length devs] \<noteq> []" using assms by (cases c) auto
  from max_dev_loop_start [OF this] obtain j
    where j: "max_dev_loop (zip devs [0..<length devs]) None None = Some j"
      and "j \<in> snd ` set (zip devs [0..<length devs])" by blast
  then have "j \<in> set [0..<length devs]" by (auto dest: set_zip_rightD)
  then have jc: "j < length c" using len by simp
  have "max_dev_loop (zip (map (\<lambda>p. \<bar>snd p - average c\<bar>) c) [0..<length c]) None None = Some j"
    using j by (simp add: devs_def)
  then have "remove_outlier c = Inr (take j c @ drop (Suc j) c)"
    using assms jc by (simp add: remove_outlier_def Let_def pop_def)
  moreover have "Suc (length (take j c @ drop (Suc j) c)) = length c" using jc by simp
  ultimately show ?thesis using subseq_pop [OF jc] by blast
qed

lemma repeat_remove_length:
  assumes "k \<le> length c"
  shows "\<exists>c'. repeat_remove k c = Inr c' \<and> length c' = length c - k \<and> subseq c' c"
  using assms
proof (induction k arbitrary: c)
  case 0
  show ?case by simp
next
  case (Suc k)
  then have "c \<noteq> []" by auto
  from remove_outlier_nonempty [OF this] obtain c1
    where c1: "remove_outlier c = Inr c1" "Suc (length c1) = length c" "subseq c1 c" by blast
  with Suc.prems have "k \<le> length c1" by simp
  from Suc.IH [OF this] obtain c' where "repeat_remove k c1 = Inr c'" "length c' = length c1 - k" "subseq c' c1"
    by blast
  with c1 show ?case
    by (auto intro: subseq_order.order_trans)
qed

lemma points_to_remove_nat:
  "nat (points_to_remove n) = (if n < 2 then 1 else n div 2)"
  by (simp add: points_to_remove_def max_def min_def) linarith

lemma trim_cluster_length:
  assumes "2 \<le> length c"
  shows "\<exists>c'. trim_cluster c = Inr c' \<and> length c' = length c - length c div 2 \<and> c' \<noteq> [] \<and> subseq c' c"
proof -
  have k: "nat (points_to_remove (length c)) = length c div 2"
    using assms by (simp add: points_to_remove_nat)
  have "length c div 2 \<le> length c" by simp
  from repeat_remove_length [OF this] obtain c'
    where c': "repeat_remove (length c div 2) c = Inr c'" "length c' = length c - length c div 2" "subseq c' c"
    by blast
  have "0 < length c - length c div 2" using assms by linarith
  with c' have "c' \<noteq> []" by auto
  with c' k show ?thesis by (simp add: trim_cluster_def)
qed

lemma trim_cluster_single: "trim_cluster [p] = Inr []"
  by (simp add: trim_cluster_def points_to_remove_nat remove_outlier_def pop_def)

lemma trim_cluster_empty: "trim_cluster [] = Inl ZeroDivisionError"
  by (simp add: trim_cluster_def points_to_remove_nat remove_outlier_def)

lemma remove_outlier_const:
  assumes "c \<noteq> []" and "\<And>p. p \<in> set c \<Longrightarrow> snd p = r"
  shows "remove_outlier c = Inr (tl c)"
proof -
  obtain p ps where c: "c = p # ps" using assms(1) by (cases c) auto
  have avg: "average c = r" by (rule average_const [OF assms])
  define ds where "ds = map (\<lambda>q. \<bar>snd q - average c\<bar>) ps"
  have same: "\<And>q. q \<in> set c \<Longrightarrow> \<bar>snd q - average c\<bar> = 0"
    using assms(2) avg by simp
  have zero: "\<And>d. d \<in> set ds \<Longrightarrow> d = 0"
    unfolding ds_def using same c by auto
  have "\<bar>snd p - average c\<bar> = 0"
    using same [of p] c by simp
  then have devs: "map (\<lambda>q. \<bar>snd q - average c\<bar>) c = 0 # ds"
    unfolding ds_def by (subst (2) c) simp
  have "0 < length c" using assms(1) by simp
  then have "[0..<length c] = 0 # [Suc 0..<length c]"
    by (rule upt_conv_Cons)
  then have z: "zip (map (\<lambda>q. \<bar>snd q - average c\<bar>) c) [0..<length c] = (0, 0) # zip ds [Suc 0..<length c]"
    by (simp add: devs)
  have "max_dev_loop (zip ds [Suc 0..<length c]) (Some 0) (Some 0) = Some 0"
  proof (rule max_dev_loop_keep)
    fix d i assume "(d, i) \<in> set (zip ds [Suc 0..<length c])"
    then have "d \<in> set ds" by (auto dest: set_zip_leftD)
    then show "d \<le> 0" using zero by auto
  qed
  then have "max_dev_loop (zip (map (\<lambda>q. \<bar>snd q - average c\<bar>) c) [0..<length c]) None None = Some 0"
    by (simp add: z)
  then have "remove_outlier c = pop c (Some 0)"
    using assms(1) by (simp add: remove_outlier_def Let_def)
  then show ?thesis
    by (simp add: pop_def c)
qed

lemma repeat_remove_const:
  assumes "k \<le> length c" and "\<And>p. p \<in> set c \<Longrightarrow> snd p = r"
  shows "repeat_remove k c = Inr (drop k c)"
  using assms
proof (induction k arbitrary: c)
  case 0
  show ?case by simp
next
  case (Suc k)
  then have ne: "c \<noteq> []" by auto
  have "remove_outlier c = Inr (tl c)"
    by (rule remove_outlier_const [OF ne]) (use Suc.prems in auto)
  moreover have "repeat_remove k (tl c) = Inr (drop k (tl c))"
  proof (rule Suc.IH)
    show "k \<le> length (tl c)" using Suc.prems(1) by simp
    fix p assume "p \<in> set (tl c)"
    then show "snd p = r" by (metis list.set_sel(2) ne Suc.prems(2))
  qed
  ultimately show ?case by (simp add: drop_Suc)
qed

lemma trim_plateau:
  assumes "plateau r pl"
  shows "\<exists>c'. trim_cluster pl = Inr c' \<and> mean_rate c' = Inr r"
proof -
  from assms have len: "3 \<le> length pl" and same: "\<And>p. p \<in> set pl \<Longrightarrow> snd p = r"
    by (auto simp: plateau_def list_all_iff)
  have k: "nat (points_to_remove (length pl)) = length pl div 2"
    using len by (simp add: points_to_remove_nat)
  have t: "trim_cluster pl = Inr (drop (length pl div 2) pl)"
    unfolding trim_cluster_def k by (rule repeat_remove_const) (use same in auto)
  have ne: "drop (length pl div 2) pl \<noteq> []" using len by simp
  have "average (drop (length pl div 2) pl) = r"
    by (rule average_const [OF ne]) (use same in \<open>auto dest: in_set_dropD\<close>)
  with ne t show ?thesis by (simp add: mean_rate_def)
qed

subsection \<open>The rate curve, case by case\<close>

lemma emap_cases:
  assumes "\<And>x e. f x = Inl e \<Longrightarrow> e = e0"
  shows "emap f xs = (if \<forall>x\<in>set xs. \<exists>y. f x = Inr y then Inr (map (\<lambda>x. projr (f x)) xs) else Inl e0)"
proof (induction xs)
  case Nil
  show ?case by simp
next
  case (Cons x xs)
  show ?case
  proof (cases "f x")
    case (Inl e)
    with assms have "f x = Inl e0" by blast
    then show ?thesis by auto
  next
    case (Inr y)
    then show ?thesis by (simp add: Cons.IH)
  qed
qed

lemma py_int_error: "py_int s = Inl e \<Longrightarrow> e = ValueError"
  by (cases e) (auto simp: py_int_def split: list.splits if_splits option.splits)

lemma rate_error: "rate f bc = Inl e \<Longrightarrow> e = ZeroDivisionError"
  by (cases bc) (auto simp: rate_def split: if_splits)

lemma int_keys_cases:
  "int_keys sweep =
     (if \<forall>k\<in>fst ` set sweep. \<exists>b. py_int k = Inr b
      then Inr (map (\<lambda>kc. projr (py_int (fst kc))) sweep) else Inl ValueError)"
  unfolding int_keys_def by (subst emap_cases [where ?e0.0 = ValueError]) (auto dest: py_int_error simp: comp_def)

lemma emap_rate_cases:
  "emap (rate f) xs =
     (if 0 \<in> snd ` set xs then Inl ZeroDivisionError
      else Inr (map (\<lambda>bc. real_of_int f * (real_of_int (fst bc) / real_of_int (snd bc))) xs))"
proof -
  have 1: "(\<forall>x\<in>set xs. \<exists>y. rate f x = Inr y) \<longleftrightarrow> 0 \<notin> snd ` set xs"
    by (force simp: rate_def split: prod.splits)
  have 2: "0 \<notin> snd ` set xs \<Longrightarrow> map (\<lambda>x. projr (rate f x)) xs
      = map (\<lambda>bc. real_of_int f * (real_of_int (fst bc) / real_of_int (snd bc))) xs"
    by (rule map_cong) (force simp: rate_def split: prod.splits)+
  show ?thesis
    by (subst emap_cases [where ?e0.0 = ZeroDivisionError]) (auto dest: rate_error simp: 1 2)
qed

lemma rates_cases:
  "rates sweep f =
     (if \<not> (\<forall>k\<in>fst ` set sweep. \<exists>b. py_int k = Inr b) then Inl ValueError
      else if 0 \<in> snd ` set sweep then Inl ZeroDivisionError
      else Inr (map (\<lambda>kc. (projr (py_int (fst kc)),
                  real_of_int f * (real_of_int (projr (py_int (fst kc))) / real_of_int (snd kc)))) sweep))"
proof -
  have z: "zip (map (\<lambda>kc. projr (py_int (fst kc))) sweep) (map snd sweep)
      = map (\<lambda>kc. (projr (py_int (fst kc)), snd kc)) sweep"
    by (induction sweep) simp_all
  have s: "snd ` set (map (\<lambda>kc. (projr (py_int (fst kc)), snd kc)) sweep) = snd ` set sweep"
    by (force simp: image_iff)
  have z2: "\<And>g h. zip (map g sweep) (map h sweep) = map (\<lambda>x. (g x, h x)) sweep"
    by (induction sweep) simp_all
  show ?thesis
    unfolding rates_def int_keys_cases
    by (simp add: emap_rate_cases z s z2 comp_def del: set_map)
qed

subsection \<open>Plateaus\<close>

lemma cluster_step_first: "cluster_step [[]] p = Inr [[p]]"
  by (simp add: cluster_step_def)

lemma get_bandwidth_points:
  assumes "rates memory_benchmark frequency_hz = Inr points"
  shows "get_bandwidth memory_benchmark frequency_hz = level_bandwidth points"
  using assms by (simp add: get_bandwidth_def)

lemma level_bandwidth_clusters:
  assumes "cluster_loop [[]] points = Inr clusters"
  shows "level_bandwidth points = ebind (emap trim_cluster clusters) (emap mean_rate)"
  using assms by (simp add: level_bandwidth_def)

lemma plateauD:
  assumes "plateau r pl"
  shows "3 \<le> length pl" and "pl \<noteq> []" and "\<And>p. p \<in> set pl \<Longrightarrow> snd p = r"
  using assms by (auto simp: plateau_def list_all_iff)

lemma cluster_loop_same_rate:
  assumes "cur \<noteq> []" and "0 < r" and "\<And>p. p \<in> set cur \<union> set ps \<Longrightarrow> snd p = r"
  shows "cluster_loop (cs @ [cur]) ps = Inr (cs @ [cur @ ps])"
proof (rule cluster_loop_tight [OF assms(1) assms(2)])
  fix p assume "p \<in> set cur \<union> set ps"
  then have "snd p = r" by (rule assms(3))
  then show "\<bar>snd p - r\<bar> < r / 11" using assms(2) by simp
qed

lemma cluster_open_plateau:
  assumes "plateau r pl" and "0 < r"
  shows "cluster_loop (cs @ [[]]) pl = Inr (cs @ [pl])"
proof -
  obtain p ps where pl: "pl = p # ps"
    using plateauD(2) [OF assms(1)] by (cases pl) auto
  have "cluster_loop (cs @ [[p]]) ps = Inr (cs @ [[p] @ ps])"
    by (rule cluster_loop_same_rate [OF _ assms(2)]) (use plateauD(3) [OF assms(1)] pl in auto)
  then show ?thesis
    by (simp add: pl cluster_step_snoc)
qed

lemma cluster_next_plateau:
  assumes "plateau r pl" and "0 < r" and "plateau r' pl'" and "0 < r'"
    and "CLUSTER_THRESHOLD * r < \<bar>r' - r\<bar>"
  shows "cluster_loop (cs @ [pl]) pl' = Inr (cs @ [pl, pl'])"
proof -
  obtain p ps where pl': "pl' = p # ps"
    using plateauD(2) [OF assms(3)] by (cases pl') auto
  have avg: "average pl = r"
    by (rule average_const [OF plateauD(2) [OF assms(1)] plateauD(3) [OF assms(1)]])
  have p: "snd p = r'" using plateauD(3) [OF assms(3)] pl' by simp
  have step: "cluster_step (cs @ [pl]) p = Inr ((cs @ [pl]) @ [[p]])"
    using plateauD(1,2) [OF assms(1)] assms(5) by (simp add: cluster_step_snoc avg p)
  have "cluster_loop ((cs @ [pl]) @ [[p]]) ps = Inr ((cs @ [pl]) @ [[p] @ ps])"
    by (rule cluster_loop_same_rate [OF _ assms(4)]) (use plateauD(3) [OF assms(3)] pl' in auto)
  then show ?thesis
    by (simp add: pl' step)
qed

lemma cluster_plateaus:
  assumes "list_all2 plateau rs pls" and "list_all (\<lambda>r. 0 < r) rs" and "separated (r # rs)"
    and "plateau r pl" and "0 < r"
  shows "cluster_loop (cs @ [pl]) (concat pls) = Inr (cs @ pl # pls)"
  using assms
proof (induction rs pls arbitrary: cs r pl rule: list_all2_induct)
  case Nil
  show ?case by simp
next
  case (Cons r' rs pl' pls)
  have r': "0 < r'" and pos: "list_all (\<lambda>r. 0 < r) rs" using Cons.prems(1) by simp_all
  have far: "CLUSTER_THRESHOLD * r < \<bar>r' - r\<bar>" and sep: "separated (r' # rs)"
    using Cons.prems(2) by simp_all
  have 1: "cluster_loop (cs @ [pl]) pl' = Inr ((cs @ [pl]) @ [pl'])"
    using cluster_next_plateau [OF Cons.prems(3) Cons.prems(4) Cons.hyps(1) r' far] by simp
  have 2: "cluster_loop ((cs @ [pl]) @ [pl']) (concat pls) = Inr ((cs @ [pl]) @ pl' # pls)"
    by (rule Cons.IH [OF pos sep Cons.hyps(1) r'])
  show ?case
    using 2 by (simp add: cluster_loop_append 1)
qed

lemma trim_plateaus:
  assumes "list_all2 plateau rs pls"
  shows "ebind (emap trim_cluster pls) (emap mean_rate) = Inr rs"
  using assms
proof (induction rs pls rule: list_all2_induct)
  case Nil
  show ?case by simp
next
  case (Cons r rs pl pls)
  from trim_plateau [OF Cons.hyps(1)] obtain c'
    where c': "trim_cluster pl = Inr c'" "mean_rate c' = Inr r" by blast
  from Cons.IH obtain trimmed
    where t: "emap trim_cluster pls = Inr trimmed" "emap mean_rate trimmed = Inr rs"
    by (auto simp: ebind_eq_Inr)
  show ?case by (simp add: c' t)
qed

subsection \<open>What a successful trimming returns\<close>




lemma mean_rate_Inr: "mean_rate c = Inr b \<longleftrightarrow> c \<noteq> [] \<and> b = average c"
  by (auto simp: mean_rate_def)

subsection \<open>Forgetting the byte sizes\<close>

text \<open>
  Every pass commutes with forgetting the sizes, so the result is a function of the rates.
\<close>

lemma average_erase: "average (map erase c) = average c"
  by (simp add: average_def erase_def comp_def)

lemma cluster_step_erase:
  "cluster_step (map (map erase) cs) (erase p) = map_sum id (map (map erase)) (cluster_step cs p)"
proof (cases "cs = []")
  case True
  then show ?thesis by (simp add: cluster_step_def)
next
  case False
  then obtain bs cur where cs: "cs = bs @ [cur]"
    by (metis append_butlast_last_id)
  have "cluster_step (map (map erase) bs @ [map erase cur]) (erase p)
      = map_sum id (map (map erase)) (cluster_step (bs @ [cur]) p)"
    unfolding cluster_step_snoc by (simp add: average_erase) (simp add: erase_def)
  then show ?thesis by (simp add: cs)
qed

lemma cluster_loop_erase:
  "cluster_loop (map (map erase) cs) (map erase ps) = map_sum id (map (map erase)) (cluster_loop cs ps)"
proof (induction ps arbitrary: cs)
  case Nil
  show ?case by simp
next
  case (Cons p ps)
  show ?case
    by (cases "cluster_step cs p") (simp_all add: cluster_step_erase Cons.IH)
qed

lemma pop_map: "pop (map f xs) i = map_sum id (map f) (pop xs i)"
  by (cases i) (simp_all add: pop_def take_map drop_map)

lemma remove_outlier_erase:
  "remove_outlier (map erase c) = map_sum id (map erase) (remove_outlier c)"
proof -
  have "map (\<lambda>p. \<bar>snd p - average c\<bar>) (map erase c) = map (\<lambda>p. \<bar>snd p - average c\<bar>) c"
    by (simp add: erase_def comp_def)
  then show ?thesis
    by (simp add: remove_outlier_def Let_def average_erase pop_map del: map_map)
qed

lemma repeat_remove_erase:
  "repeat_remove k (map erase c) = map_sum id (map erase) (repeat_remove k c)"
proof (induction k arbitrary: c)
  case 0
  show ?case by simp
next
  case (Suc k)
  show ?case
    by (cases "remove_outlier c") (simp_all add: remove_outlier_erase Suc.IH)
qed

lemma trim_cluster_erase:
  "trim_cluster (map erase c) = map_sum id (map erase) (trim_cluster c)"
  by (simp add: trim_cluster_def repeat_remove_erase)

lemma emap_trim_erase:
  "emap trim_cluster (map (map erase) cs) = map_sum id (map (map erase)) (emap trim_cluster cs)"
proof (induction cs)
  case Nil
  show ?case by simp
next
  case (Cons c cs)
  show ?case
    by (cases "trim_cluster c"; cases "emap trim_cluster cs") (simp_all add: trim_cluster_erase Cons.IH)
qed

lemma mean_rate_erase: "mean_rate (map erase c) = mean_rate c"
  by (simp add: mean_rate_def average_erase)

lemma emap_mean_erase: "emap mean_rate (map (map erase) cs) = emap mean_rate cs"
  by (induction cs) (simp_all add: mean_rate_erase)

lemma level_bandwidth_erase: "level_bandwidth (map erase points) = level_bandwidth points"
proof -
  have "cluster_loop [[]] (map erase points) = map_sum id (map (map erase)) (cluster_loop [[]] points)"
    using cluster_loop_erase [of "[[]]" points] by simp
  then show ?thesis
    unfolding level_bandwidth_def
    by (cases "cluster_loop [[]] points"; cases "emap trim_cluster (projr (cluster_loop [[]] points))")
      (simp_all add: emap_trim_erase emap_mean_erase)
qed

lemma erase_eq:
  assumes "map snd ps = map snd qs"
  shows "map erase ps = map erase qs"
proof -
  have e: "map erase xs = map (\<lambda>r. (0, r)) (map snd xs)" for xs :: "point list"
    by (simp add: erase_def comp_def)
  show ?thesis
    unfolding e [of ps] e [of qs] assms ..
qed

subsection \<open>The maximum\<close>

lemma py_max_Max:
  assumes "xs \<noteq> []"
  shows "py_max xs = Inr (Max (set xs))"
proof -
  obtain y ys where xs: "xs = y # ys" using assms by (cases xs) auto
  have "(\<lambda>item maxitem :: real. if item > maxitem then item else maxitem) = max"
    by (intro ext) (simp add: max_def)
  then have "py_max xs = Inr (fold max ys y)"
    by (simp add: xs)
  also have "fold max ys y = Max (set (y # ys))"
    by (rule Max.set_eq_fold [symmetric])
  finally show ?thesis
    by (simp only: xs)
qed

lemma get_peak_performance_cases:
  "get_peak_performance sweep f =
     (if \<not> (\<forall>k\<in>fst ` set sweep. \<exists>b. py_int k = Inr b) then Inl ValueError
      else if 0 \<in> snd ` set sweep then Inl ZeroDivisionError
      else if sweep = [] then Inl ValueError
      else Inr (Max ((\<lambda>kc. real_of_int f * (real_of_int (projr (py_int (fst kc))) / real_of_int (snd kc)))
                  ` set sweep)))"
  unfolding get_peak_performance_def rates_cases
  by (simp add: py_max_Max comp_def image_image)

lemma get_peak_performance_perm:
  assumes "mset sweep' = mset sweep"
  shows "get_peak_performance sweep' f = get_peak_performance sweep f"
proof -
  have "set sweep' = set sweep" using assms by (rule mset_eq_setD)
  moreover have "sweep' = [] \<longleftrightarrow> sweep = []" using assms by (metis mset_zero_iff)
  ultimately show ?thesis
    unfolding get_peak_performance_cases by simp
qed

lemma int_keys_Inr:
  assumes "int_keys sweep = Inr sizes"
  shows "(\<forall>k\<in>fst ` set sweep. \<exists>b. py_int k = Inr b)"
    and "sizes = map (\<lambda>kc. projr (py_int (fst kc))) sweep"
  using assms unfolding int_keys_cases by (auto split: if_splits)

lemma rates_Inr:
  assumes "int_keys sweep = Inr sizes" and "0 \<notin> set (map snd sweep)"
  shows "rates sweep f =
     Inr (zip sizes (map2 (\<lambda>b c. real_of_int f * (real_of_int b / real_of_int c)) sizes (map snd sweep)))"
proof -
  have z: "\<And>g h. zip (map g sweep) (map h sweep) = map (\<lambda>x. (g x, h x)) sweep"
    by (induction sweep) simp_all
  show ?thesis
    using int_keys_Inr [OF assms(1)] assms(2)
    unfolding rates_cases by (simp add: z comp_def del: set_map) (simp add: image_iff)
qed

subsection \<open>When the extractor returns\<close>

text \<open>
  Once the rate curve exists, the extractor returns exactly when the last cluster of the
  scan has two points or more; with an empty or one-point last cluster it raises
  \<^verbatim>\<open>ZeroDivisionError\<close>.
\<close>

lemma emap_append:
  "emap f (xs @ ys) = ebind (emap f xs) (\<lambda>as. ebind (emap f ys) (\<lambda>bs. Inr (as @ bs)))"
proof (induction xs)
  case Nil
  show ?case by (cases "emap f ys") simp_all
next
  case (Cons x xs)
  show ?case
    by (cases "f x"; cases "emap f xs"; cases "emap f ys") (simp_all add: Cons.IH)
qed

lemma trim_mean_large:
  assumes "\<And>c. c \<in> set cs \<Longrightarrow> 2 \<le> length c"
  shows "\<exists>ts. emap trim_cluster cs = Inr ts \<and> emap mean_rate ts = Inr (map average ts)
    \<and> length ts = length cs"
  using assms
proof (induction cs)
  case Nil
  show ?case by simp
next
  case (Cons c cs)
  have "2 \<le> length c" using Cons.prems by simp
  from trim_cluster_length [OF this] obtain c'
    where c': "trim_cluster c = Inr c'" "c' \<noteq> []" by blast
  from Cons.IH Cons.prems obtain ts
    where ts: "emap trim_cluster cs = Inr ts" "emap mean_rate ts = Inr (map average ts)"
      "length ts = length cs"
    by auto
  have "mean_rate c' = Inr (average c')"
    using c'(2) by (simp add: mean_rate_Inr)
  then show ?case
    by (simp add: c'(1) ts)
qed


lemma level_bandwidth_raises:
  assumes "cluster_loop [[]] points = Inr clusters" and "length (last clusters) < 2"
  shows "level_bandwidth points = Inl ZeroDivisionError"
proof -
  have closed: "\<forall>c\<in>set (butlast clusters). 3 \<le> length c"
    by (rule cluster_loop_closed [OF assms(1)]) simp
  from cluster_loop_total [of "[[]]" points] assms(1) have ne: "clusters \<noteq> []" by auto
  then have split: "clusters = butlast clusters @ [last clusters]" by simp
  have "\<And>c. c \<in> set (butlast clusters) \<Longrightarrow> 2 \<le> length c"
    using closed by fastforce
  from trim_mean_large [OF this] obtain ts
    where ts: "emap trim_cluster (butlast clusters) = Inr ts" "emap mean_rate ts = Inr (map average ts)"
    by blast
  consider (empty) "last clusters = []" | (single) p where "last clusters = [p]"
    using assms(2) by (cases "last clusters" rule: list.exhaust; cases "tl (last clusters)") auto
  then have "ebind (emap trim_cluster clusters) (emap mean_rate) = Inl ZeroDivisionError"
  proof cases
    case empty
    have "emap trim_cluster clusters = Inl ZeroDivisionError"
      by (subst split) (simp add: emap_append ts empty trim_cluster_empty)
    then show ?thesis by simp
  next
    case single
    have "emap trim_cluster clusters = Inr (ts @ [[]])"
      by (subst split) (simp add: emap_append ts single trim_cluster_single)
    moreover have "mean_rate [] = Inl ZeroDivisionError"
      by (simp add: mean_rate_def)
    ultimately show ?thesis
      by (simp add: emap_append ts)
  qed
  then show ?thesis
    by (simp add: level_bandwidth_clusters [OF assms(1)])
qed

section \<open>The claims\<close>

text \<open>
  C1, as stated, fails. The sweep 64:10, 128:20, 256:1600, 512:3200, 1024:6400 at 1 GHz
  does not give the two bandwidths 6.4e9 and 1.6e8.
\<close>

theorem c1_two_levels_counterexample:
  "get_bandwidth [(''64'', 10), (''128'', 20), (''256'', 1600), (''512'', 3200), (''1024'', 6400)] 1000000000
     \<noteq> Inr [6400000000, 160000000]"
  by code_simp

text \<open>
  C1, amended. On that sweep the rates are 6.4e9 twice and 1.6e8 three times. The run of
  two points is overwritten when the point 256 deviates from it, since it has fewer than
  three points; the scan ends with the single cluster of 256, 512 and 1024, the trimming
  removes one of its points, and the extractor returns the single bandwidth 1.6e8.
\<close>

theorem c1_single_level:
  "rates [(''64'', 10), (''128'', 20), (''256'', 1600), (''512'', 3200), (''1024'', 6400)] 1000000000
     = Inr [(64, 6400000000), (128, 6400000000), (256, 160000000), (512, 160000000), (1024, 160000000)]
   \<and> cluster_loop [[]] [(64, 6400000000), (128, 6400000000), (256, 160000000), (512, 160000000), (1024, 160000000)]
     = Inr [[(256, 160000000), (512, 160000000), (1024, 160000000)]]
   \<and> trim_cluster [(256, 160000000), (512, 160000000), (1024, 160000000)]
     = Inr [(512, 160000000), (1024, 160000000)]
   \<and> get_bandwidth [(''64'', 10), (''128'', 20), (''256'', 1600), (''512'', 3200), (''1024'', 6400)] 1000000000
     = Inr [160000000]"
  by code_simp

text \<open>
  C2, as stated, fails. The five rates 81, 81, 81, 119, 119 all lie within 20% of the
  common value 100, yet the scan compares each point with the running average of the
  current cluster, not with that value: 119 is more than 20% of 81 away from 81, the
  three-point cluster is closed, and two bandwidths are returned.
\<close>

theorem c2_counterexample:
  "rates [(''81'', 1), (''162'', 2), (''243'', 3), (''476'', 4), (''595'', 5)] 1
     = Inr [(81, 81), (162, 81), (243, 81), (476, 119), (595, 119)]
   \<and> list_all (within_tol CLUSTER_THRESHOLD 100) [81, 81, 81, 119, 119]
   \<and> get_bandwidth [(''81'', 1), (''162'', 2), (''243'', 3), (''476'', 4), (''595'', 5)] 1 = Inr [81, 119]"
  by code_simp

text \<open>
  C2, amended. When a sweep has at least two points and every rate lies strictly within
  one eleventh of a common positive value \<open>v\<close>, the scan keeps all points in one cluster and
  the extractor returns exactly one bandwidth. (Then every running average exceeds
  \<open>10 v / 11\<close>, and two rates differ by less than \<open>2 v / 11\<close>, a fifth of that.) Nothing
  is said here about a sweep of one point.
\<close>

theorem c2_close_rates_single_level:
  assumes "rates memory_benchmark frequency_hz = Inr points"
    and "2 \<le> length points"
    and "0 < v"
    and "list_all (within_tol (1 / 11) v) (map snd points)"
  shows "cluster_loop [[]] points = Inr [points]
    \<and> (\<exists>b. get_bandwidth memory_benchmark frequency_hz = Inr [b])"
proof -
  obtain p ps where points: "points = p # ps"
    using assms(2) by (cases points) auto
  have near: "\<And>q. q \<in> set [p] \<union> set ps \<Longrightarrow> \<bar>snd q - v\<bar> < v / 11"
    using assms(4) by (auto simp: points list_all_iff within_tol_def)
  have "cluster_loop ([] @ [[p]]) ps = Inr ([] @ [[p] @ ps])"
    by (rule cluster_loop_tight [OF _ assms(3) near]) simp_all
  then have clusters: "cluster_loop [[]] points = Inr [points]"
    by (simp add: points cluster_step_first)
  from trim_cluster_length [OF assms(2)] obtain c'
    where c': "trim_cluster points = Inr c'" "c' \<noteq> []" by blast
  have "level_bandwidth points = Inr [average c']"
    using c' by (simp add: level_bandwidth_clusters [OF clusters] mean_rate_def)
  with clusters show ?thesis
    by (simp add: get_bandwidth_points [OF assms(1)])
qed

text \<open>
  The amended C2 at the sweep 100:10, 210:20, 312:30 and frequency 1, with rates 10, 10.5
  and 10.4 around \<open>v = 10\<close>.
\<close>

theorem c2_close_rates_single_level_witness:
  "rates [(''100'', 10), (''210'', 20), (''312'', 30)] 1 = Inr [(100, 10), (210, 21 / 2), (312, 52 / 5)]
   \<and> 2 \<le> length ([(100, 10), (210, 21 / 2), (312, 52 / 5)] :: point list)
   \<and> (0 :: real) < 10
   \<and> list_all (within_tol (1 / 11) 10) (map snd ([(100, 10), (210, 21 / 2), (312, 52 / 5)] :: point list))
   \<and> cluster_loop [[]] [(100, 10), (210, 21 / 2), (312, 52 / 5)]
       = Inr [[(100, 10), (210, 21 / 2), (312, 52 / 5)]]
   \<and> (\<exists>b. get_bandwidth [(''100'', 10), (''210'', 20), (''312'', 30)] 1 = Inr [b])"
proof -
  have h1: "rates [(''100'', 10), (''210'', 20), (''312'', 30)] 1
      = Inr [(100, 10), (210, 21 / 2), (312, 52 / 5)]"
    by code_simp
  have h2: "2 \<le> length ([(100, 10), (210, 21 / 2), (312, 52 / 5)] :: point list)"
    by simp
  have h3: "(0 :: real) < 10" by simp
  have h4: "list_all (within_tol (1 / 11) 10) (map snd ([(100, 10), (210, 21 / 2), (312, 52 / 5)] :: point list))"
    by (simp add: within_tol_def)
  from c2_close_rates_single_level [OF h1 h2 h3 h4] h1 h2 h3 h4 show ?thesis
    by (intro conjI) blast+
qed

text \<open>
  C3. A sweep made of \<open>k \<ge> 1\<close> plateaus, each a run of at least three points at one
  positive rate, the rate of each plateau differing from the rate of the plateau before it
  by more than 20% of that earlier rate: the scan yields exactly the plateaus as its
  clusters, and the extractor returns the \<open>k\<close> plateau rates, in input order.
\<close>

theorem c3_plateaus_one_level_each:
  assumes "rates memory_benchmark frequency_hz = Inr (concat pls)"
    and "list_all2 plateau rs pls"
    and "rs \<noteq> []"
    and "list_all (\<lambda>r. 0 < r) rs"
    and "separated rs"
  shows "cluster_loop [[]] (concat pls) = Inr pls
    \<and> get_bandwidth memory_benchmark frequency_hz = Inr rs"
proof -
  obtain r rs' pl pls' where rs: "rs = r # rs'" and pls: "pls = pl # pls'"
    and pl: "plateau r pl" and rest: "list_all2 plateau rs' pls'"
    using assms(2,3) by (cases rs; cases pls) auto
  have r: "0 < r" and pos: "list_all (\<lambda>r. 0 < r) rs'" using assms(4) rs by simp_all
  have 1: "cluster_loop ([] @ [[]]) pl = Inr ([] @ [pl])"
    by (rule cluster_open_plateau [OF pl r])
  have 2: "cluster_loop ([] @ [pl]) (concat pls') = Inr ([] @ pl # pls')"
    by (rule cluster_plateaus [OF rest pos _ pl r]) (use assms(5) rs in simp)
  have clusters: "cluster_loop [[]] (concat pls) = Inr pls"
    using 1 2 by (simp add: pls cluster_loop_append)
  have "level_bandwidth (concat pls) = Inr rs"
    by (simp add: level_bandwidth_clusters [OF clusters] trim_plateaus [OF assms(2)])
  with clusters show ?thesis
    by (simp add: get_bandwidth_points [OF assms(1)])
qed

text \<open>
  C3 at the sweep 10:1, 20:2, 30:3, 40:10, 80:20, 120:30 and frequency 1: two plateaus, at the
  rates 10 and 4.
\<close>

theorem c3_plateaus_one_level_each_witness:
  "rates [(''10'', 1), (''20'', 2), (''30'', 3), (''40'', 10), (''80'', 20), (''120'', 30)] 1
     = Inr (concat [[(10, 10), (20, 10), (30, 10)], [(40, 4), (80, 4), (120, 4)]])
   \<and> list_all2 plateau [10, 4] [[(10, 10), (20, 10), (30, 10)], [(40, 4), (80, 4), (120, 4)]]
   \<and> [10, 4 :: real] \<noteq> []
   \<and> list_all (\<lambda>r. 0 < r) [10, 4 :: real]
   \<and> separated [10, 4]
   \<and> cluster_loop [[]] (concat [[(10, 10), (20, 10), (30, 10)], [(40, 4), (80, 4), (120, 4)]])
       = Inr [[(10, 10), (20, 10), (30, 10)], [(40, 4), (80, 4), (120, 4)]]
   \<and> get_bandwidth [(''10'', 1), (''20'', 2), (''30'', 3), (''40'', 10), (''80'', 20), (''120'', 30)] 1
       = Inr [10, 4]"
proof -
  have h1: "rates [(''10'', 1), (''20'', 2), (''30'', 3), (''40'', 10), (''80'', 20), (''120'', 30)] 1
     = Inr (concat [[(10, 10), (20, 10), (30, 10)], [(40, 4), (80, 4), (120, 4)]])"
    by code_simp
  have h2: "list_all2 plateau [10, 4] [[(10, 10), (20, 10), (30, 10)], [(40, 4), (80, 4), (120, 4)]]"
    by (simp add: plateau_def)
  have h3: "[10, 4 :: real] \<noteq> []" by simp
  have h4: "list_all (\<lambda>r. 0 < r) [10, 4 :: real]" by simp
  have h5: "separated [10, 4]" by (simp add: CLUSTER_THRESHOLD_def)
  from c3_plateaus_one_level_each [OF h1 h2 h3 h4 h5] h1 h2 h3 h4 h5 show ?thesis
    by (intro conjI) blast+
qed



text \<open>
  C5: the code departs from it. A cluster of one point is asked to give up one point, not
  none: the trimming empties it, whatever the point, and the mean of the empty cluster
  divides by zero. So the one-point sweep 64:10 at 1 GHz ends in \<^verbatim>\<open>ZeroDivisionError\<close>,
  and so does every sweep whose scan leaves one point in the last cluster.
\<close>

theorem c5_single_point_cluster_emptied:
  "points_to_remove 1 = 1
   \<and> trim_cluster [p] = Inr []
   \<and> mean_rate [] = Inl ZeroDivisionError
   \<and> get_bandwidth [(''64'', 10)] 1000000000 = Inl ZeroDivisionError
   \<and> (rates memory_benchmark frequency_hz = Inr points
        \<and> cluster_loop [[]] points = Inr clusters \<and> length (last clusters) = 1 \<longrightarrow>
      get_bandwidth memory_benchmark frequency_hz = Inl ZeroDivisionError)"
proof (intro conjI impI)
  show "points_to_remove 1 = 1"
    by (simp add: points_to_remove_def)
  show "trim_cluster [p] = Inr []"
    by (rule trim_cluster_single)
  show "mean_rate [] = Inl ZeroDivisionError"
    by (simp add: mean_rate_def)
  show "get_bandwidth [(''64'', 10)] 1000000000 = Inl ZeroDivisionError"
    by code_simp
next
  assume a: "rates memory_benchmark frequency_hz = Inr points
        \<and> cluster_loop [[]] points = Inr clusters \<and> length (last clusters) = 1"
  then have "level_bandwidth points = Inl ZeroDivisionError"
    by (intro level_bandwidth_raises [of points clusters]) simp_all
  with a show "get_bandwidth memory_benchmark frequency_hz = Inl ZeroDivisionError"
    by (simp add: get_bandwidth_points)
qed

text \<open>
  C5 at the sweep 10:1, 20:2, 30:3, 40:10 and frequency 1: the last point deviates from the
  cluster of three before it, is left alone in the last cluster, and the extractor raises.
\<close>

theorem c5_single_point_cluster_emptied_witness:
  "rates [(''10'', 1), (''20'', 2), (''30'', 3), (''40'', 10)] 1 = Inr [(10, 10), (20, 10), (30, 10), (40, 4)]
   \<and> cluster_loop [[]] [(10, 10), (20, 10), (30, 10), (40, 4)] = Inr [[(10, 10), (20, 10), (30, 10)], [(40, 4)]]
   \<and> length (last ([[(10, 10), (20, 10), (30, 10)], [(40, 4)]] :: point list list)) = 1
   \<and> get_bandwidth [(''10'', 1), (''20'', 2), (''30'', 3), (''40'', 10)] 1 = Inl ZeroDivisionError"
proof -
  have h1: "rates [(''10'', 1), (''20'', 2), (''30'', 3), (''40'', 10)] 1
      = Inr [(10, 10), (20, 10), (30, 10), (40, 4)]"
    by code_simp
  have h2: "cluster_loop [[]] [(10, 10), (20, 10), (30, 10), (40, 4)]
      = Inr [[(10, 10), (20, 10), (30, 10)], [(40, 4)]]"
    by code_simp
  have h3: "length (last ([[(10, 10), (20, 10), (30, 10)], [(40, 4)]] :: point list list)) = 1"
    by simp
  from c5_single_point_cluster_emptied [of _ "[(''10'', 1), (''20'', 2), (''30'', 3), (''40'', 10)]" 1
      "[(10, 10), (20, 10), (30, 10), (40, 4)]" "[[(10, 10), (20, 10), (30, 10)], [(40, 4)]]"]
    h1 h2 h3
  show ?thesis by (intro conjI) blast+
qed

text \<open>
  C6. Let the scan have reached the clusters \<open>cs\<close> and the current cluster \<open>cur\<close>, of one
  or two points, and let the next point \<open>p\<close> deviate from the average of \<open>cur\<close> by at
  least 20% of that average. Then the step replaces \<open>cur\<close> by the cluster of \<open>p\<close> alone;
  the final clusters are \<open>cs\<close> followed by clusters made only of \<open>p\<close> and the points after
  it; every cluster but the last has at least three points; and the returned bandwidths
  are those of these clusters, so \<open>cur\<close> contributes none.
\<close>

theorem c6_short_deviant_cluster_discarded:
  assumes "rates memory_benchmark frequency_hz = Inr (ps @ p # qs)"
    and "cluster_loop [[]] ps = Inr (cs @ [cur])"
    and "cur \<noteq> []"
    and "length cur < 3"
    and "CLUSTER_THRESHOLD * average cur \<le> \<bar>snd p - average cur\<bar>"
  shows "cluster_step (cs @ [cur]) p = Inr (cs @ [[p]])
    \<and> (\<exists>rest. cluster_loop [[]] (ps @ p # qs) = Inr (cs @ rest)
          \<and> subseq (concat rest) (p # qs)
          \<and> list_all (\<lambda>c. 3 \<le> length c) (butlast (cs @ rest))
          \<and> get_bandwidth memory_benchmark frequency_hz
              = ebind (emap trim_cluster (cs @ rest)) (emap mean_rate))"
proof -
  have step: "cluster_step (cs @ [cur]) p = Inr (cs @ [[p]])"
    using assms(3,4,5) by (simp add: cluster_step_snoc)
  from cluster_loop_subseq [of cs "[p]" qs] obtain rest
    where rest: "cluster_loop (cs @ [[p]]) qs = Inr (cs @ rest)" "subseq (concat rest) ([p] @ qs)"
    by blast
  have loop: "cluster_loop [[]] (ps @ p # qs) = Inr (cs @ rest)"
    by (simp add: cluster_loop_append assms(2) step rest(1))
  have "\<forall>c\<in>set (butlast (cs @ rest)). 3 \<le> length c"
    by (rule cluster_loop_closed [OF loop]) simp
  then have closed: "list_all (\<lambda>c. 3 \<le> length c) (butlast (cs @ rest))"
    by (simp add: list_all_iff)
  have "get_bandwidth memory_benchmark frequency_hz = ebind (emap trim_cluster (cs @ rest)) (emap mean_rate)"
    by (simp add: get_bandwidth_points [OF assms(1)] level_bandwidth_clusters [OF loop])
  with step loop rest(2) closed show ?thesis by auto
qed

text \<open>
  C6 at the sweep 10:1, 20:2, 30:3, 40:10, 80:20, 100:100, 200:200, 300:300 and frequency 1: the run of
  two points at the rate 4 is dropped when the rate 1 arrives.
\<close>

theorem c6_short_deviant_cluster_discarded_witness:
  "rates [(''10'', 1), (''20'', 2), (''30'', 3), (''40'', 10), (''80'', 20), (''100'', 100), (''200'', 200), (''300'', 300)] 1
     = Inr ([(10, 10), (20, 10), (30, 10), (40, 4), (80, 4)] @ (100, 1) # [(200, 1), (300, 1)])
   \<and> cluster_loop [[]] [(10, 10), (20, 10), (30, 10), (40, 4), (80, 4)]
       = Inr ([[(10, 10), (20, 10), (30, 10)]] @ [[(40, 4), (80, 4)]])
   \<and> [(40, 4), (80, 4 :: real)] \<noteq> ([] :: point list)
   \<and> length ([(40, 4), (80, 4)] :: point list) < 3
   \<and> CLUSTER_THRESHOLD * average [(40, 4), (80, 4)] \<le> \<bar>snd (100 :: int, 1 :: real) - average [(40, 4), (80, 4)]\<bar>
   \<and> cluster_step ([[(10, 10), (20, 10), (30, 10)]] @ [[(40, 4), (80, 4)]]) (100, 1)
       = Inr ([[(10, 10), (20, 10), (30, 10)]] @ [[(100, 1)]])
   \<and> (\<exists>rest. cluster_loop [[]] ([(10, 10), (20, 10), (30, 10), (40, 4), (80, 4)] @ (100, 1) # [(200, 1), (300, 1)])
           = Inr ([[(10, 10), (20, 10), (30, 10)]] @ rest)
          \<and> subseq (concat rest) ((100, 1) # [(200, 1), (300, 1)])
          \<and> list_all (\<lambda>c. 3 \<le> length c) (butlast ([[(10, 10), (20, 10), (30, 10)]] @ rest))
          \<and> get_bandwidth
               [(''10'', 1), (''20'', 2), (''30'', 3), (''40'', 10), (''80'', 20), (''100'', 100), (''200'', 200), (''300'', 300)] 1
              = ebind (emap trim_cluster ([[(10, 10), (20, 10), (30, 10)]] @ rest)) (emap mean_rate))"
proof -
  have h1: "rates [(''10'', 1), (''20'', 2), (''30'', 3), (''40'', 10), (''80'', 20), (''100'', 100), (''200'', 200), (''300'', 300)] 1
     = Inr ([(10, 10), (20, 10), (30, 10), (40, 4), (80, 4)] @ (100, 1) # [(200, 1), (300, 1)])"
    by code_simp
  have h2: "cluster_loop [[]] [(10, 10), (20, 10), (30, 10), (40, 4), (80, 4)]
       = Inr ([[(10, 10), (20, 10), (30, 10)]] @ [[(40, 4), (80, 4)]])"
    by code_simp
  have h3: "[(40, 4), (80, 4 :: real)] \<noteq> ([] :: point list)" by simp
  have h4: "length ([(40, 4), (80, 4)] :: point list) < 3" by simp
  have h5: "CLUSTER_THRESHOLD * average [(40, 4), (80, 4)] \<le> \<bar>snd (100 :: int, 1 :: real) - average [(40, 4), (80, 4)]\<bar>"
    by (simp add: CLUSTER_THRESHOLD_def average_def)
  from c6_short_deviant_cluster_discarded [OF h1 h2 h3 h4 h5] h1 h2 h3 h4 h5 show ?thesis
    by (intro conjI) blast+
qed

text \<open>
  C7. For a non-empty arithmetic sweep with numeric keys and positive cycle counts, the
  peak-performance extractor returns the largest of the rates
  \<open>frequency_hz * (ops / cycles)\<close>; it returns the same on every reordering of the sweep;
  and on the sweep 100:50, 200:90, 400:100 at 1 GHz it returns 4e9.
\<close>

theorem c7_peak_is_order_independent_maximum:
  assumes "arithmetic_benchmark \<noteq> []"
    and "list_all (\<lambda>kc. 0 < snd kc) arithmetic_benchmark"
    and "int_keys arithmetic_benchmark = Inr arith_ops"
  shows "get_peak_performance arithmetic_benchmark frequency_hz
      = Inr (Max (set (map2 (\<lambda>ops c. real_of_int frequency_hz * (real_of_int ops / real_of_int c))
                        arith_ops (map snd arithmetic_benchmark))))
    \<and> (mset permuted = mset arithmetic_benchmark \<longrightarrow>
          get_peak_performance permuted frequency_hz
            = get_peak_performance arithmetic_benchmark frequency_hz)
    \<and> get_peak_performance [(''100'', 50), (''200'', 90), (''400'', 100)] 1000000000 = Inr 4000000000"
proof -
  have nz: "0 \<notin> set (map snd arithmetic_benchmark)"
    using assms(2) by (auto simp: list_all_iff)
  have len: "length arith_ops = length arithmetic_benchmark"
    using int_keys_Inr(2) [OF assms(3)] by simp
  have ne: "map2 (\<lambda>ops c. real_of_int frequency_hz * (real_of_int ops / real_of_int c))
      arith_ops (map snd arithmetic_benchmark) \<noteq> []"
    using assms(1) len by (cases arith_ops; cases arithmetic_benchmark) auto
  have 1: "get_peak_performance arithmetic_benchmark frequency_hz
      = Inr (Max (set (map2 (\<lambda>ops c. real_of_int frequency_hz * (real_of_int ops / real_of_int c))
                        arith_ops (map snd arithmetic_benchmark))))"
    unfolding get_peak_performance_def rates_Inr [OF assms(3) nz]
    using ne len by (simp add: py_max_Max)
  have 2: "get_peak_performance [(''100'', 50), (''200'', 90), (''400'', 100)] 1000000000 = Inr 4000000000"
    by code_simp
  show ?thesis
    using 1 2 get_peak_performance_perm by blast
qed

text \<open>
  C7 at the sweep 100:50, 200:90, 400:100 and one of its reorderings.
\<close>

theorem c7_peak_is_order_independent_maximum_witness:
  "[(''100'', 50), (''200'', 90), (''400'', 100 :: int)] \<noteq> []
   \<and> list_all (\<lambda>kc. 0 < snd kc) [(''100'', 50), (''200'', 90), (''400'', 100 :: int)]
   \<and> int_keys [(''100'', 50), (''200'', 90), (''400'', 100)] = Inr [100, 200, 400]
   \<and> mset [(''400'', 100), (''100'', 50), (''200'', 90 :: int)]
       = mset [(''100'', 50), (''200'', 90), (''400'', 100)]
   \<and> get_peak_performance [(''400'', 100), (''100'', 50), (''200'', 90)] 1000000000
       = get_peak_performance [(''100'', 50), (''200'', 90), (''400'', 100)] 1000000000
   \<and> get_peak_performance [(''100'', 50), (''200'', 90), (''400'', 100)] 1000000000
       = Inr (Max (set (map2 (\<lambda>ops c. real_of_int 1000000000 * (real_of_int ops / real_of_int c))
                        [100, 200, 400] (map snd [(''100'', 50), (''200'', 90), (''400'', 100 :: int)]))))"
proof -
  have h1: "[(''100'', 50), (''200'', 90), (''400'', 100 :: int)] \<noteq> []" by simp
  have h2: "list_all (\<lambda>kc. 0 < snd kc) [(''100'', 50), (''200'', 90), (''400'', 100 :: int)]" by simp
  have h3: "int_keys [(''100'', 50), (''200'', 90), (''400'', 100)] = Inr [100, 200, 400]" by code_simp
  have h4: "mset [(''400'', 100), (''100'', 50), (''200'', 90 :: int)]
       = mset [(''100'', 50), (''200'', 90), (''400'', 100)]" by simp
  from c7_peak_is_order_independent_maximum [OF h1 h2 h3,
      of 1000000000 "[(''400'', 100), (''100'', 50), (''200'', 90)]"] h1 h2 h3 h4
  show ?thesis by blast
qed

text \<open>
  C8, as stated, fails. The empty sweep is not rejected as an input: the rate curve of the
  empty mapping is computed (it is empty) and the scan runs (it leaves the initial empty
  cluster). \<^verbatim>\<open>get_bandwidth\<close> stops only in the trimming pass, at the mean of that
  empty cluster, the division by zero that an input check would have prevented, and the
  exception that reaches the caller is Python's \<^verbatim>\<open>ZeroDivisionError\<close>;
  \<^verbatim>\<open>get_peak_performance\<close> stops in \<^verbatim>\<open>max\<close>, with Python's \<^verbatim>\<open>ValueError\<close>.
\<close>

theorem c8_empty_sweep_not_validated_counterexample:
  "rates [] 1000000000 = Inr []
   \<and> cluster_loop [[]] [] = Inr [[]]
   \<and> points_to_remove (length ([] :: point list)) = 1
   \<and> remove_outlier [] = Inl ZeroDivisionError
   \<and> get_bandwidth [] 1000000000 = Inl ZeroDivisionError
   \<and> py_max [] = Inl ValueError
   \<and> get_peak_performance [] 1000000000 = Inl ValueError"
  by (simp add: get_bandwidth_def get_peak_performance_def rates_def int_keys_def
      level_bandwidth_def trim_cluster_empty points_to_remove_def remove_outlier_def)

text \<open>
  C8, amended. On an empty sweep neither extractor returns a value, at any frequency, and
  neither checks its input: \<^verbatim>\<open>get_bandwidth\<close> computes the empty rate curve and raises
  \<^verbatim>\<open>ZeroDivisionError\<close> from the mean of the empty initial cluster (line 47), and
  \<^verbatim>\<open>get_peak_performance\<close> raises \<^verbatim>\<open>ValueError\<close> from the maximum of an empty list
  (line 95).
\<close>

theorem c8_empty_sweep_fails:
  "rates [] frequency_hz = Inr []
   \<and> get_bandwidth [] frequency_hz = Inl ZeroDivisionError
   \<and> get_peak_performance [] frequency_hz = Inl ValueError"
  by (simp add: get_bandwidth_def get_peak_performance_def rates_def int_keys_def
      level_bandwidth_def trim_cluster_empty)

text \<open>
  C9, as stated, fails. A negative cycle count is not rejected: both extractors divide by
  it and return a value.
\<close>

theorem c9_negative_cycles_counterexample:
  "rates [(''100'', - 50), (''200'', 100)] 1000000000 = Inr [(100, - 2000000000), (200, 2000000000)]
   \<and> get_peak_performance [(''100'', - 50), (''200'', 100)] 1000000000 = Inr 2000000000
   \<and> get_bandwidth [(''64'', - 10), (''128'', 20), (''256'', 40)] 1000000000 = Inr [6400000000]"
  by code_simp

text \<open>
  C9, amended. A sweep with a zero cycle count makes both extractors raise
  (\<^verbatim>\<open>ZeroDivisionError\<close>, or \<^verbatim>\<open>ValueError\<close> when a key is not numeric), so no run that
  returns has divided by zero. Zero is the only cycle count refused: with numeric keys and
  no zero count every rate is computed as \<open>frequency_hz * (size / cycles)\<close>, whatever
  the sign of the count.
\<close>

theorem c9_only_zero_cycles_rejected:
  "(0 \<in> set (map snd benchmark) \<longrightarrow>
       (rates benchmark frequency_hz = Inl ValueError \<or> rates benchmark frequency_hz = Inl ZeroDivisionError)
     \<and> (\<exists>e. get_bandwidth benchmark frequency_hz = Inl e)
     \<and> (\<exists>e. get_peak_performance benchmark frequency_hz = Inl e))
   \<and> (0 \<notin> set (map snd benchmark) \<and> int_keys benchmark = Inr sizes \<longrightarrow>
       rates benchmark frequency_hz =
         Inr (zip sizes (map2 (\<lambda>b c. real_of_int frequency_hz * (real_of_int b / real_of_int c))
                           sizes (map snd benchmark))))"
proof (intro conjI impI)
  assume z: "0 \<in> set (map snd benchmark)"
  then show r: "rates benchmark frequency_hz = Inl ValueError \<or> rates benchmark frequency_hz = Inl ZeroDivisionError"
    unfolding rates_cases by simp
  then show "\<exists>e. get_bandwidth benchmark frequency_hz = Inl e"
    unfolding get_bandwidth_def by auto
  from r show "\<exists>e. get_peak_performance benchmark frequency_hz = Inl e"
    unfolding get_peak_performance_def by auto
next
  assume "0 \<notin> set (map snd benchmark) \<and> int_keys benchmark = Inr sizes"
  then show "rates benchmark frequency_hz =
         Inr (zip sizes (map2 (\<lambda>b c. real_of_int frequency_hz * (real_of_int b / real_of_int c))
                           sizes (map snd benchmark)))"
    using rates_Inr by blast
qed

text \<open>
  The amended C9 at the sweep 64:10, 128:0, which is refused, and at the sweep 100:-50,
  200:100, whose rates are computed.
\<close>

theorem c9_only_zero_cycles_rejected_witness:
  "0 \<in> set (map snd [(''64'', 10), (''128'', 0 :: int)])
   \<and> (rates [(''64'', 10), (''128'', 0)] 1000000000 = Inl ValueError
        \<or> rates [(''64'', 10), (''128'', 0)] 1000000000 = Inl ZeroDivisionError)
   \<and> (\<exists>e. get_bandwidth [(''64'', 10), (''128'', 0)] 1000000000 = Inl e)
   \<and> (\<exists>e. get_peak_performance [(''64'', 10), (''128'', 0)] 1000000000 = Inl e)
   \<and> 0 \<notin> set (map snd [(''100'', - 50), (''200'', 100 :: int)])
   \<and> int_keys [(''100'', - 50), (''200'', 100)] = Inr [100, 200]
   \<and> rates [(''100'', - 50), (''200'', 100)] 1000000000
       = Inr (zip [100, 200] (map2 (\<lambda>b c. real_of_int 1000000000 * (real_of_int b / real_of_int c))
                           [100, 200] (map snd [(''100'', - 50), (''200'', 100 :: int)])))"
proof -
  have h1: "0 \<in> set (map snd [(''64'', 10), (''128'', 0 :: int)])" by simp
  have h2: "0 \<notin> set (map snd [(''100'', - 50), (''200'', 100 :: int)])" by simp
  have h3: "int_keys [(''100'', - 50), (''200'', 100)] = Inr [100, 200]" by code_simp
  from c9_only_zero_cycles_rejected [of "[(''64'', 10), (''128'', 0)]" 1000000000]
    c9_only_zero_cycles_rejected [of "[(''100'', - 50), (''200'', 100)]" 1000000000 "[100, 200]"]
    h1 h2 h3
  show ?thesis by (intro conjI) blast+
qed

text \<open>
  C10. Two inputs whose rate curves exist and agree, point by point, get the same result
  from \<^verbatim>\<open>get_bandwidth\<close>, whatever their byte sizes and frequencies.
\<close>

theorem c10_bandwidth_depends_on_rates_only:
  assumes "rates memory_benchmark frequency_hz = Inr points"
    and "rates memory_benchmark' frequency_hz' = Inr points'"
    and "map snd points = map snd points'"
  shows "get_bandwidth memory_benchmark frequency_hz = get_bandwidth memory_benchmark' frequency_hz'"
proof -
  have "level_bandwidth points = level_bandwidth (map erase points)"
    by (simp add: level_bandwidth_erase)
  also have "\<dots> = level_bandwidth (map erase points')"
    by (simp add: erase_eq [OF assms(3)])
  also have "\<dots> = level_bandwidth points'"
    by (simp add: level_bandwidth_erase)
  finally show ?thesis
    by (simp add: get_bandwidth_points [OF assms(1)] get_bandwidth_points [OF assms(2)])
qed

text \<open>
  C10 at two sweeps with different sizes, cycle counts and frequencies, and the same rates
  6.4e9, 6.4e9, 7.5e9.
\<close>

theorem c10_bandwidth_depends_on_rates_only_witness:
  "rates [(''64'', 10), (''128'', 20), (''300'', 40)] 1000000000
      = Inr [(64, 6400000000), (128, 6400000000), (300, 7500000000)]
   \<and> rates [(''32'', 10), (''96'', 30), (''150'', 40)] 2000000000
      = Inr [(32, 6400000000), (96, 6400000000), (150, 7500000000)]
   \<and> map snd [(64 :: int, 6400000000 :: real), (128, 6400000000), (300, 7500000000)]
      = map snd [(32 :: int, 6400000000 :: real), (96, 6400000000), (150, 7500000000)]
   \<and> get_bandwidth [(''64'', 10), (''128'', 20), (''300'', 40)] 1000000000
      = get_bandwidth [(''32'', 10), (''96'', 30), (''150'', 40)] 2000000000"
proof -
  have h1: "rates [(''64'', 10), (''128'', 20), (''300'', 40)] 1000000000
      = Inr [(64, 6400000000), (128, 6400000000), (300, 7500000000)]"
    by code_simp
  have h2: "rates [(''32'', 10), (''96'', 30), (''150'', 40)] 2000000000
      = Inr [(32, 6400000000), (96, 6400000000), (150, 7500000000)]"
    by code_simp
  have h3: "map snd [(64 :: int, 6400000000 :: real), (128, 6400000000), (300, 7500000000)]
      = map snd [(32 :: int, 6400000000 :: real), (96, 6400000000), (150, 7500000000)]"
    by simp
  from c10_bandwidth_depends_on_rates_only [OF h1 h2 h3] h1 h2 h3 show ?thesis
    by (intro conjI)
qed

end
